theory Spec2Isabelle
  imports Main "HOL-Library.Word" "HOL-Library.Multiset"
begin

section \<open>JavaScript values used by \<^verbatim>\<open>src/utils/helpers.js\<close>\<close>

text \<open>
  A JavaScript string is a sequence of 16-bit code units; \<^verbatim>\<open>length\<close>, \<^verbatim>\<open>substring\<close>,
  \<^verbatim>\<open>includes\<close> and the regular expressions without the \<^verbatim>\<open>u\<close> flag all work on code
  units. \<open>ascii\<close> writes an ASCII literal as such a sequence.
\<close>

type_synonym code_unit = "16 word"
type_synonym jsstring = "code_unit list"

definition ascii :: "string \<Rightarrow> jsstring" where
  "ascii s = map (\<lambda>c. word_of_nat (of_char c)) s"

text \<open>
  The class \<^verbatim>\<open>\s\<close> of a regular expression, which is also what \<^verbatim>\<open>trim\<close> removes:
  the WhiteSpace and LineTerminator code points of ECMAScript.
\<close>

definition isWhiteSpace :: "code_unit \<Rightarrow> bool" where
  "isWhiteSpace c =
     (let n = unat c in
        (0x09 \<le> n \<and> n \<le> 0x0D) \<or> n = 0x20 \<or> n = 0xA0 \<or> n = 0x1680 \<or>
        (0x2000 \<le> n \<and> n \<le> 0x200A) \<or> n = 0x2028 \<or> n = 0x2029 \<or>
        n = 0x202F \<or> n = 0x205F \<or> n = 0x3000 \<or> n = 0xFEFF)"

text \<open>The class \<^verbatim>\<open>\w\<close>: \<^verbatim>\<open>[A-Za-z0-9_]\<close>.\<close>

definition isWordChar :: "code_unit \<Rightarrow> bool" where
  "isWordChar c =
     (let n = unat c in
        (0x30 \<le> n \<and> n \<le> 0x39) \<or> (0x41 \<le> n \<and> n \<le> 0x5A) \<or>
        (0x61 \<le> n \<and> n \<le> 0x7A) \<or> n = 0x5F)"

definition isUpperAscii :: "code_unit \<Rightarrow> bool" where
  "isUpperAscii c = (0x41 \<le> unat c \<and> unat c \<le> 0x5A)"

definition hyphen :: code_unit where
  "hyphen = 0x2D"

definition underscore :: code_unit where
  "underscore = 0x5F"

text \<open>
  \<^verbatim>\<open>String.prototype.toLowerCase\<close> follows the Unicode case tables of the engine. The
  functions below take it as the parameter \<open>lc\<close>; \<open>toLowerCase_ascii\<close> is its
  restriction to ASCII letters, used to evaluate concrete ASCII inputs.
\<close>

definition toLowerCase_ascii :: "jsstring \<Rightarrow> jsstring" where
  "toLowerCase_ascii s = map (\<lambda>c. if isUpperAscii c then c + 0x20 else c) s"

text \<open>\<^verbatim>\<open>String.prototype.trim\<close>.\<close>

definition trim :: "jsstring \<Rightarrow> jsstring" where
  "trim s = rev (dropWhile isWhiteSpace (rev (dropWhile isWhiteSpace s)))"

text \<open>
  \<^verbatim>\<open>String.prototype.substring(start, end)\<close>: both indices are clamped to
  \<open>[0, length]\<close> and swapped when \<open>start > end\<close>.
\<close>

definition substring :: "'a list \<Rightarrow> int \<Rightarrow> int \<Rightarrow> 'a list" where
  "substring s start fin =
     (let len = int (length s);
          a = min (max start 0) len;
          b = min (max fin 0) len;
          lo = min a b;
          hi = max a b
      in take (nat (hi - lo)) (drop (nat lo) s))"

text \<open>\<^verbatim>\<open>String.prototype.includes\<close>: \<open>t\<close> occurs in \<open>s\<close> as a contiguous run.\<close>

fun startsWith :: "'a list \<Rightarrow> 'a list \<Rightarrow> bool" where
  "startsWith s [] = True"
| "startsWith [] (y # t) = False"
| "startsWith (x # s) (y # t) = (x = y \<and> startsWith s t)"

fun includes_js :: "'a list \<Rightarrow> 'a list \<Rightarrow> bool" where
  "includes_js [] t = startsWith [] t"
| "includes_js (x # s) t = (startsWith (x # s) t \<or> includes_js s t)"

text \<open>
  Numbers: the model covers \<^verbatim>\<open>NaN\<close> and the integers, which is what the claims about
  the helpers exercise (a field holding 0, an elapsed number of seconds). A JavaScript
  number is exactly such an integer up to a magnitude of \<open>2 ^ 53\<close>, and there
  \<^verbatim>\<open>Number.prototype.toString\<close> writes its decimal digits, as \<open>number_toString\<close> does.
  Fractions and the infinities are left out.
\<close>

datatype jsnum = NaN | Fin int

fun digits :: "nat \<Rightarrow> jsstring" where
  "digits n = (if n < 10 then [0x30 + word_of_nat n]
               else digits (n div 10) @ [0x30 + word_of_nat (n mod 10)])"

declare digits.simps [simp del]

fun number_toString :: "jsnum \<Rightarrow> jsstring" where
  "number_toString NaN = ascii ''NaN''"
| "number_toString (Fin i) = (if i < 0 then hyphen # digits (nat (- i)) else digits (nat i))"

text \<open>The primitive values a record field can hold.\<close>

datatype jsval = Undefined | Null | Bool bool | Num jsnum | Str jsstring

datatype error = TypeError

text \<open>\<^verbatim>\<open>ToBoolean\<close>: what \<^verbatim>\<open>!x\<close> and \<^verbatim>\<open>x && ...\<close> test.\<close>

fun truthy :: "jsval \<Rightarrow> bool" where
  "truthy Undefined = False"
| "truthy Null = False"
| "truthy (Bool b) = b"
| "truthy (Num NaN) = False"
| "truthy (Num (Fin i)) = (i \<noteq> 0)"
| "truthy (Str s) = (s \<noteq> [])"

text \<open>
  \<^verbatim>\<open>value.toString()\<close>: a property access on \<^verbatim>\<open>undefined\<close> or \<^verbatim>\<open>null\<close> throws a
  TypeError.
\<close>

fun toString :: "jsval \<Rightarrow> error + jsstring" where
  "toString Undefined = Inl TypeError"
| "toString Null = Inl TypeError"
| "toString (Bool b) = Inr (if b then ascii ''true'' else ascii ''false'')"
| "toString (Num n) = Inr (number_toString n)"
| "toString (Str s) = Inr s"

text \<open>
  A record is an object with data fields; \<^verbatim>\<open>item[key]\<close> is \<^verbatim>\<open>undefined\<close> for a key
  the object does not have.
\<close>

type_synonym item = "(jsstring \<times> jsval) list"

definition get_field :: "item \<Rightarrow> jsstring \<Rightarrow> jsval" where
  "get_field item key = (case map_of item key of None \<Rightarrow> Undefined | Some v \<Rightarrow> v)"

section \<open>Performance utilities: debounce\<close>
















section \<open>String utilities\<close>

text \<open>
  \<^verbatim>\<open>str.replace(/[^\w\s-]/g, '')\<close> deletes every code unit outside the three classes.
\<close>

definition removeSpecial :: "jsstring \<Rightarrow> jsstring" where
  "removeSpecial s = filter (\<lambda>c. isWordChar c \<or> isWhiteSpace c \<or> c = hyphen) s"

text \<open>
  \<^verbatim>\<open>str.replace(/[\s_-]+/g, '-')\<close> replaces every maximal run of whitespace,
  underscores and hyphens by one hyphen.
\<close>

definition isSeparator :: "code_unit \<Rightarrow> bool" where
  "isSeparator c = (isWhiteSpace c \<or> c = underscore \<or> c = hyphen)"

function collapseSeparators :: "jsstring \<Rightarrow> jsstring" where
  "collapseSeparators [] = []"
| "collapseSeparators (c # cs) =
     (if isSeparator c then hyphen # collapseSeparators (dropWhile isSeparator cs)
      else c # collapseSeparators cs)"
  by pat_completeness auto
termination
  by (relation "measure length") (auto simp: less_Suc_eq_le length_dropWhile_le)

text \<open>\<^verbatim>\<open>str.replace(/^-+|-+$/g, '')\<close> removes the leading and the trailing hyphens.\<close>

definition stripHyphens :: "jsstring \<Rightarrow> jsstring" where
  "stripHyphens s =
     rev (dropWhile (\<lambda>c. c = hyphen) (rev (dropWhile (\<lambda>c. c = hyphen) s)))"

definition slugify :: "(jsstring \<Rightarrow> jsstring) \<Rightarrow> jsstring \<Rightarrow> jsstring" where
  "slugify lc str = stripHyphens (collapseSeparators (removeSpecial (trim (lc str))))"

text \<open>
  The alphabet of a slug: lower-case ASCII letters and digits, and the hyphen that
  separates them.
\<close>

definition isLowerAlnum :: "code_unit \<Rightarrow> bool" where
  "isLowerAlnum c =
     (let n = unat c in (0x30 \<le> n \<and> n \<le> 0x39) \<or> (0x61 \<le> n \<and> n \<le> 0x7A))"

definition isSlugChar :: "code_unit \<Rightarrow> bool" where
  "isSlugChar c = (isLowerAlnum c \<or> c = hyphen)"

abbreviation (input) noDouble :: "code_unit \<Rightarrow> code_unit \<Rightarrow> bool" where
  "noDouble a b \<equiv> \<not> (a = hyphen \<and> b = hyphen)"

text \<open>
  \<^verbatim>\<open>truncate(str, length, suffix)\<close>; a string is falsy exactly when it is empty.
\<close>

definition truncate :: "jsstring \<Rightarrow> int \<Rightarrow> jsstring \<Rightarrow> jsstring" where
  "truncate str len suffix =
     (if str = [] \<or> int (length str) \<le> len then str
      else substring str 0 (len - int (length suffix)) @ suffix)"

definition default_suffix :: jsstring where
  "default_suffix = ascii ''...''"

section \<open>Date utilities\<close>

text \<open>
  \<^verbatim>\<open>timeAgo(dateString)\<close>. \<open>now\<close> and \<open>date\<close> are the time values in milliseconds of
  \<^verbatim>\<open>new Date()\<close> and \<^verbatim>\<open>new Date(dateString)\<close>; an invalid date has the time value
  \<^verbatim>\<open>NaN\<close>, written \<open>None\<close>. \<^verbatim>\<open>Math.floor\<close> of a quotient of integers is \<open>div\<close>.
\<close>

definition intervals :: "(jsstring \<times> int) list" where
  "intervals =
     [(ascii ''year'', 31536000), (ascii ''month'', 2592000), (ascii ''week'', 604800),
      (ascii ''day'', 86400), (ascii ''hour'', 3600), (ascii ''minute'', 60)]"

text \<open>The template \<^verbatim>\<open>`${interval} ${unit}${interval > 1 ? 's' : ''} ago`\<close>.\<close>

definition ago :: "int \<Rightarrow> jsstring \<Rightarrow> jsstring" where
  "ago interval unit =
     number_toString (Fin interval) @ ascii '' '' @ unit @
     (if interval > 1 then ascii ''s'' else []) @ ascii '' ago''"

fun timeAgo_loop :: "jsnum \<Rightarrow> (jsstring \<times> int) list \<Rightarrow> jsstring" where
  "timeAgo_loop seconds [] = ascii ''Just now''"
| "timeAgo_loop seconds ((unit, secondsInUnit) # rest) =
     (case seconds of
        NaN \<Rightarrow> timeAgo_loop seconds rest
      | Fin s \<Rightarrow>
          (let interval = s div secondsInUnit
           in if interval \<ge> 1 then ago interval unit else timeAgo_loop seconds rest))"

definition timeAgo :: "int \<Rightarrow> int option \<Rightarrow> jsstring" where
  "timeAgo now date =
     (let seconds = (case date of None \<Rightarrow> NaN | Some d \<Rightarrow> Fin ((now - d) div 1000))
      in timeAgo_loop seconds intervals)"

section \<open>Validation utilities\<close>

text \<open>
  \<^verbatim>\<open>isNotEmpty(str)\<close> is \<^verbatim>\<open>str && str.trim().length > 0\<close>: \<^verbatim>\<open>&&\<close> returns its left
  operand when that is falsy. Only strings have a \<^verbatim>\<open>trim\<close> method; calling it on
  another truthy primitive throws a TypeError.
\<close>

definition isNotEmpty :: "jsval \<Rightarrow> error + jsval" where
  "isNotEmpty str =
     (if \<not> truthy str then Inr str
      else case str of
             Str s \<Rightarrow> Inr (Bool (length (trim s) > 0))
           | _ \<Rightarrow> Inl TypeError)"

section \<open>Array utilities\<close>

subsection \<open>filterBySearch\<close>

text \<open>
  The callback of \<^verbatim>\<open>keys.some\<close>:
  \<^verbatim>\<open>value && value.toString().toLowerCase().includes(term)\<close>; \<^verbatim>\<open>some\<close> reads its result
  as a boolean, so a falsy \<open>value\<close> counts as \<open>False\<close>.
\<close>

definition matchesKey :: "(jsstring \<Rightarrow> jsstring) \<Rightarrow> jsstring \<Rightarrow> item \<Rightarrow> jsstring \<Rightarrow> error + bool" where
  "matchesKey lc term item key =
     (let value = get_field item key
      in if \<not> truthy value then Inr False
         else case toString value of
                Inl e \<Rightarrow> Inl e
              | Inr s \<Rightarrow> Inr (includes_js (lc s) term))"

text \<open>\<^verbatim>\<open>Array.prototype.some\<close> and \<^verbatim>\<open>Array.prototype.filter\<close> with a callback that may throw.\<close>

fun array_some :: "('a \<Rightarrow> error + bool) \<Rightarrow> 'a list \<Rightarrow> error + bool" where
  "array_some f [] = Inr False"
| "array_some f (x # xs) =
     (case f x of
        Inl e \<Rightarrow> Inl e
      | Inr b \<Rightarrow> if b then Inr True else array_some f xs)"

fun array_filter :: "('a \<Rightarrow> error + bool) \<Rightarrow> 'a list \<Rightarrow> error + 'a list" where
  "array_filter f [] = Inr []"
| "array_filter f (x # xs) =
     (case f x of
        Inl e \<Rightarrow> Inl e
      | Inr b \<Rightarrow>
          (case array_filter f xs of
             Inl e \<Rightarrow> Inl e
           | Inr ys \<Rightarrow> Inr (if b then x # ys else ys)))"

definition filterBySearch ::
  "(jsstring \<Rightarrow> jsstring) \<Rightarrow> item list \<Rightarrow> jsstring \<Rightarrow> jsstring list \<Rightarrow> error + item list" where
  "filterBySearch lc array searchTerm keys =
     (if searchTerm = [] then Inr array
      else let term = lc searchTerm
           in array_filter (\<lambda>item. array_some (matchesKey lc term item) keys) array)"

text \<open>
  The string form \<^verbatim>\<open>String(v)\<close> of a value, which is \<^verbatim>\<open>v.toString()\<close> wherever that
  does not throw.
\<close>

fun string_form :: "jsval \<Rightarrow> jsstring" where
  "string_form Undefined = ascii ''undefined''"
| "string_form Null = ascii ''null''"
| "string_form (Bool b) = (if b then ascii ''true'' else ascii ''false'')"
| "string_form (Num n) = number_toString n"
| "string_form (Str s) = s"

text \<open>
  The retention rule in the words of the specification: some key has a value that is
  neither \<^verbatim>\<open>null\<close> nor \<^verbatim>\<open>undefined\<close> and whose lower-cased string form contains the
  lower-cased term.
\<close>

definition isNullish :: "jsval \<Rightarrow> bool" where
  "isNullish v = (v = Undefined \<or> v = Null)"

definition retained_as_specified ::
  "(jsstring \<Rightarrow> jsstring) \<Rightarrow> jsstring \<Rightarrow> jsstring list \<Rightarrow> item \<Rightarrow> bool" where
  "retained_as_specified lc searchTerm keys item =
     list_ex (\<lambda>key. \<not> isNullish (get_field item key) \<and>
                    includes_js (lc (string_form (get_field item key))) (lc searchTerm)) keys"

text \<open>The same rule with "truthy" in place of "neither null nor undefined".\<close>

definition retained_truthy ::
  "(jsstring \<Rightarrow> jsstring) \<Rightarrow> jsstring \<Rightarrow> jsstring list \<Rightarrow> item \<Rightarrow> bool" where
  "retained_truthy lc searchTerm keys item =
     list_ex (\<lambda>key. truthy (get_field item key) \<and>
                    includes_js (lc (string_form (get_field item key))) (lc searchTerm)) keys"

text \<open>The values that are falsy although the field is present.\<close>

definition falsy_present :: "jsval \<Rightarrow> bool" where
  "falsy_present v = (v = Num (Fin 0) \<or> v = Str [] \<or> v = Bool False \<or> v = Num NaN)"

subsection \<open>sortByKey\<close>

text \<open>
  \<^verbatim>\<open>a < b\<close> on primitive values: two strings are compared code unit by code unit; in
  every other case both sides are converted to numbers, and a comparison with \<^verbatim>\<open>NaN\<close>
  is false. The conversion of a string to a number is the engine's numeric-literal
  parser, the parameter \<open>s2n\<close>.
\<close>

fun str_lt :: "jsstring \<Rightarrow> jsstring \<Rightarrow> bool" where
  "str_lt [] [] = False"
| "str_lt [] (y # ys) = True"
| "str_lt (x # xs) [] = False"
| "str_lt (x # xs) (y # ys) = (if x < y then True else if y < x then False else str_lt xs ys)"

fun toNumber :: "(jsstring \<Rightarrow> jsnum) \<Rightarrow> jsval \<Rightarrow> jsnum" where
  "toNumber s2n Undefined = NaN"
| "toNumber s2n Null = Fin 0"
| "toNumber s2n (Bool b) = Fin (if b then 1 else 0)"
| "toNumber s2n (Num n) = n"
| "toNumber s2n (Str s) = s2n s"

fun num_lt :: "jsnum \<Rightarrow> jsnum \<Rightarrow> bool" where
  "num_lt (Fin m) (Fin n) = (m < n)"
| "num_lt _ _ = False"

fun js_lt :: "(jsstring \<Rightarrow> jsnum) \<Rightarrow> jsval \<Rightarrow> jsval \<Rightarrow> bool" where
  "js_lt s2n (Str x) (Str y) = str_lt x y"
| "js_lt s2n a b = num_lt (toNumber s2n a) (toNumber s2n b)"

text \<open>The comparator passed to \<^verbatim>\<open>sort\<close>; \<^verbatim>\<open>a > b\<close> is \<^verbatim>\<open>b < a\<close>.\<close>

definition compareFn :: "(jsstring \<Rightarrow> jsnum) \<Rightarrow> jsstring \<Rightarrow> jsstring \<Rightarrow> item \<Rightarrow> item \<Rightarrow> int" where
  "compareFn s2n key order a b =
     (let valueA = get_field a key;
          valueB = get_field b key
      in if js_lt s2n valueA valueB then (if order = ascii ''asc'' then - 1 else 1)
         else if js_lt s2n valueB valueA then (if order = ascii ''asc'' then 1 else - 1)
         else 0)"

text \<open>
  \<^verbatim>\<open>Array.prototype.sort(comparefn)\<close> belongs to the engine. ECMAScript fixes its result
  only for a consistent comparator (the stable sorted order) and leaves the algorithm,
  and the result for any other comparator, to the engine. The model is an insertion
  sort: each element in turn goes into the sorted part in front of the first element
  that the comparator puts after it. On a consistent comparator this is the one result
  ECMAScript allows; it is also the position a binary insertion, which engines run on
  short arrays, finds in a sorted part.
\<close>

fun insert_sorted :: "('a \<Rightarrow> 'a \<Rightarrow> int) \<Rightarrow> 'a \<Rightarrow> 'a list \<Rightarrow> 'a list" where
  "insert_sorted comparefn x [] = [x]"
| "insert_sorted comparefn x (y # ys) =
     (if comparefn x y < 0 then x # y # ys else y # insert_sorted comparefn x ys)"

definition array_sort :: "('a \<Rightarrow> 'a \<Rightarrow> int) \<Rightarrow> 'a list \<Rightarrow> 'a list" where
  "array_sort comparefn xs = foldl (\<lambda>acc x. insert_sorted comparefn x acc) [] xs"

definition sortByKey :: "(jsstring \<Rightarrow> jsnum) \<Rightarrow> item list \<Rightarrow> jsstring \<Rightarrow> jsstring \<Rightarrow> item list" where
  "sortByKey s2n array key order = array_sort (compareFn s2n key order) array"

text \<open>
  Arrays are objects: \<^verbatim>\<open>[...array]\<close> allocates a new array with the same elements and
  \<^verbatim>\<open>sort\<close> reorders that new array in place. A heap is the list of the arrays allocated
  so far, a reference is a position in it; \<open>None\<close> stands for a reference that does not
  point into the heap, which no JavaScript value does.
\<close>

type_synonym heap = "item list list"

definition sortByKey_heap ::
  "(jsstring \<Rightarrow> jsnum) \<Rightarrow> heap \<Rightarrow> nat \<Rightarrow> jsstring \<Rightarrow> jsstring \<Rightarrow> (heap \<times> nat) option" where
  "sortByKey_heap s2n h array key order =
     (if array < length h then
        (let copy = length h;
             h1 = h @ [h ! array];
             h2 = h1[copy := array_sort (compareFn s2n key order) (h1 ! copy)]
         in Some (h2, copy))
      else None)"

text \<open>
  Two values are equal for the comparator when neither is less than the other; \<open>a\<close> and
  \<open>b\<close> keep their relative order from \<open>xs\<close> to \<open>ys\<close> when the occurrences of the two
  items form the same sequence in both.
\<close>

definition equal_keys :: "(jsstring \<Rightarrow> jsnum) \<Rightarrow> jsstring \<Rightarrow> item \<Rightarrow> item \<Rightarrow> bool" where
  "equal_keys s2n key a b =
     (\<not> js_lt s2n (get_field a key) (get_field b key) \<and>
      \<not> js_lt s2n (get_field b key) (get_field a key))"

definition same_relative_order :: "'a \<Rightarrow> 'a \<Rightarrow> 'a list \<Rightarrow> 'a list \<Rightarrow> bool" where
  "same_relative_order a b xs ys =
     (filter (\<lambda>x. x = a \<or> x = b) ys = filter (\<lambda>x. x = a \<or> x = b) xs)"

text \<open>
  The comparison is consistent on the values an array holds at a key when, among them,
  "less than" is transitive and so is "neither less nor greater". This is the case
  when all the values are numbers other than \<^verbatim>\<open>NaN\<close>, and when all are strings.
\<close>

definition consistent_keys :: "(jsstring \<Rightarrow> jsnum) \<Rightarrow> jsstring \<Rightarrow> item list \<Rightarrow> bool" where
  "consistent_keys s2n key array =
     (\<forall>a \<in> set array. \<forall>b \<in> set array. \<forall>c \<in> set array.
        (js_lt s2n (get_field a key) (get_field b key) \<and>
         js_lt s2n (get_field b key) (get_field c key)
           \<longrightarrow> js_lt s2n (get_field a key) (get_field c key)) \<and>
        (equal_keys s2n key a b \<and> equal_keys s2n key b c \<longrightarrow> equal_keys s2n key a c))"

text \<open>
  A string-to-number conversion for inputs in which no string meets a number in a
  comparison.
\<close>

definition s2n_none :: "jsstring \<Rightarrow> jsnum" where
  "s2n_none s = NaN"

text \<open>
  The comparator puts \<open>x\<close> before \<open>y\<close> when it returns a negative number. A strict weak
  order on a set: asymmetric, transitive, with transitive incomparability.
\<close>

definition precedes :: "('a \<Rightarrow> 'a \<Rightarrow> int) \<Rightarrow> 'a \<Rightarrow> 'a \<Rightarrow> bool" where
  "precedes comparefn x y = (comparefn x y < 0)"

definition weak_order_on :: "'a set \<Rightarrow> ('a \<Rightarrow> 'a \<Rightarrow> bool) \<Rightarrow> bool" where
  "weak_order_on S lt =
     ((\<forall>x \<in> S. \<forall>y \<in> S. lt x y \<longrightarrow> \<not> lt y x) \<and>
      (\<forall>x \<in> S. \<forall>y \<in> S. \<forall>z \<in> S. lt x y \<and> lt y z \<longrightarrow> lt x z) \<and>
      (\<forall>x \<in> S. \<forall>y \<in> S. \<forall>z \<in> S.
         \<not> lt x y \<and> \<not> lt y x \<and> \<not> lt y z \<and> \<not> lt z y \<longrightarrow> \<not> lt x z \<and> \<not> lt z x))"

section \<open>Properties\<close>

subsection \<open>truncate\<close>

lemma length_substring_from_0:
  "length (substring s 0 e) = nat (min (max e 0) (int (length s)))"
  by (auto simp: substring_def Let_def min_def max_def)

text \<open>
  Claim C5. For every string \<open>s\<close>, every suffix and every length \<open>n\<close> that is at least the
  length of the suffix (in particular for the default suffix of three dots), the string
  returned by \<open>truncate\<close> has at most \<open>n\<close> code units.
\<close>

theorem truncate_length_le:
  assumes "int (length suffix) \<le> n"
  shows "int (length (truncate s n suffix)) \<le> n"
  using assms by (auto simp: truncate_def length_substring_from_0)

theorem truncate_length_le_witness:
  "int (length default_suffix) \<le> 8 \<and>
   truncate (ascii ''hello world'') 8 default_suffix = ascii ''hello...'' \<and>
   int (length (truncate (ascii ''hello world'') 8 default_suffix)) \<le> 8"
  using truncate_length_le [of default_suffix 8 "ascii ''hello world''"]
  by (simp add: default_suffix_def ascii_def truncate_def substring_def)

subsection \<open>slugify\<close>

lemma unat_hyphen: "unat hyphen = 0x2D"
  by (simp add: hyphen_def)

lemma unat_underscore: "unat underscore = 0x5F"
  by (simp add: underscore_def)

lemma eq_hyphen_iff: "c = hyphen \<longleftrightarrow> unat c = 0x2D"
  by (metis unat_hyphen word_unat_eq_iff)

lemma eq_underscore_iff: "c = underscore \<longleftrightarrow> unat c = 0x5F"
  by (metis unat_underscore word_unat_eq_iff)

lemmas char_defs = isLowerAlnum_def isSlugChar_def isWordChar_def isWhiteSpace_def
  isSeparator_def isUpperAscii_def eq_hyphen_iff eq_underscore_iff Let_def

lemma slugChar_not_space: "isSlugChar c \<Longrightarrow> \<not> isWhiteSpace c"
  by (auto simp: char_defs)

lemma slugChar_kept: "isSlugChar c \<Longrightarrow> isWordChar c \<or> isWhiteSpace c \<or> c = hyphen"
  by (auto simp: char_defs)

lemma slugChar_sep: "isSlugChar c \<Longrightarrow> isSeparator c \<longleftrightarrow> c = hyphen"
  by (auto simp: char_defs)

lemma kept_nonsep_lower:
  "isWordChar c \<or> isWhiteSpace c \<or> c = hyphen \<Longrightarrow> \<not> isSeparator c \<Longrightarrow> \<not> isUpperAscii c
   \<Longrightarrow> isLowerAlnum c"
  by (auto simp: char_defs)

lemma set_trim: "set (trim s) \<subseteq> set s"
  by (auto simp: trim_def dest!: set_dropWhileD)

lemma set_stripHyphens: "set (stripHyphens s) \<subseteq> set s"
  by (auto simp: stripHyphens_def dest!: set_dropWhileD)

lemma set_collapse:
  "c \<in> set (collapseSeparators s) \<Longrightarrow> c = hyphen \<or> (c \<in> set s \<and> \<not> isSeparator c)"
  by (induction s rule: collapseSeparators.induct)
     (auto split: if_splits dest: set_dropWhileD)

lemma hd_collapse:
  "s \<noteq> [] \<Longrightarrow> \<not> isSeparator (hd s) \<Longrightarrow>
   collapseSeparators s \<noteq> [] \<and> hd (collapseSeparators s) = hd s"
  by (cases s) auto

lemma hd_dropWhile_sep: "dropWhile isSeparator cs \<noteq> [] \<Longrightarrow> \<not> isSeparator (hd (dropWhile isSeparator cs))"
  using hd_dropWhile by blast

lemma hyphen_sep: "isSeparator hyphen"
  by (simp add: isSeparator_def)

lemma collapse_noDouble: "successively noDouble (collapseSeparators s)"
proof (induction s rule: collapseSeparators.induct)
  case 1
  show ?case by simp
next
  case (2 c cs)
  show ?case
  proof (cases "isSeparator c")
    case True
    let ?r = "dropWhile isSeparator cs"
    have ih: "successively noDouble (collapseSeparators ?r)" using 2 True by simp
    show ?thesis
    proof (cases "?r = []")
      case True
      have "collapseSeparators (c # cs) = hyphen # collapseSeparators ?r"
        using \<open>isSeparator c\<close> by simp
      then show ?thesis by (simp only: True collapseSeparators.simps successively.simps)
    next
      case False
      then have "\<not> isSeparator (hd ?r)" by (rule hd_dropWhile_sep)
      with False have "collapseSeparators ?r \<noteq> [] \<and> hd (collapseSeparators ?r) = hd ?r"
        using hd_collapse by blast
      moreover have "hd ?r \<noteq> hyphen" using \<open>\<not> isSeparator (hd ?r)\<close> hyphen_sep by auto
      ultimately show ?thesis using ih \<open>isSeparator c\<close>
        by (simp add: successively_Cons)
    qed
  next
    case False
    then have "c \<noteq> hyphen" using hyphen_sep by auto
    with False 2 show ?thesis by (simp add: successively_Cons)
  qed
qed

lemma successively_suffix: "successively P (xs @ ys) \<Longrightarrow> successively P ys"
  by (simp add: successively_append_iff)

lemma successively_prefix: "successively P (xs @ ys) \<Longrightarrow> successively P xs"
  by (simp add: successively_append_iff)

lemma successively_dropWhile: "successively P xs \<Longrightarrow> successively P (dropWhile Q xs)"
  by (metis successively_suffix takeWhile_dropWhile_id)

lemma stripHyphens_noDouble:
  "successively noDouble s \<Longrightarrow> successively noDouble (stripHyphens s)"
  unfolding stripHyphens_def
  by (simp add: successively_dropWhile successively_rev)

lemma dropWhile_hd: "dropWhile P xs \<noteq> [] \<Longrightarrow> \<not> P (hd (dropWhile P xs))"
  using hd_dropWhile by blast

lemma strip_both_ends:
  fixes p :: "'a \<Rightarrow> bool"
  defines "r \<equiv> \<lambda>s. rev (dropWhile p (rev (dropWhile p s)))"
  shows "r s = [] \<or> (\<not> p (hd (r s)) \<and> \<not> p (last (r s)))"
proof (cases "r s = []")
  case True then show ?thesis by simp
next
  case False
  let ?a = "dropWhile p s"
  let ?b = "dropWhile p (rev ?a)"
  have b: "?b \<noteq> []" using False by (simp add: r_def)
  have hb: "\<not> p (hd ?b)" using b by (rule dropWhile_hd)
  have l: "last (r s) = hd ?b" using b by (simp only: r_def last_rev)
  have a: "?a \<noteq> []"
  proof
    assume "?a = []"
    then have "?b = []" by (simp only: rev.simps dropWhile.simps)
    with b show False by simp
  qed
  have ha: "\<not> p (hd ?a)" using a by (rule dropWhile_hd)
  have "last (takeWhile p (rev ?a) @ ?b) = last ?b" using b by (rule last_appendR)
  then have "last (rev ?a) = last ?b" by (simp only: takeWhile_dropWhile_id)
  then have "last ?b = hd ?a" using a by (simp only: last_rev)
  moreover have "hd (r s) = last ?b" using b by (simp only: r_def hd_rev)
  ultimately show ?thesis using ha hb l by simp
qed

lemma stripHyphens_ends:
  "stripHyphens s = [] \<or> (hd (stripHyphens s) \<noteq> hyphen \<and> last (stripHyphens s) \<noteq> hyphen)"
  using strip_both_ends[of "\<lambda>c. c = hyphen" s] by (simp add: stripHyphens_def)

lemma dropWhile_none: "xs = [] \<or> \<not> P (hd xs) \<Longrightarrow> dropWhile P xs = xs"
  by (cases xs) auto

lemma strip_id:
  "xs = [] \<or> (\<not> P (hd xs) \<and> \<not> P (last xs)) \<Longrightarrow> rev (dropWhile P (rev (dropWhile P xs))) = xs"
  by (cases "xs = []") (simp_all add: dropWhile_none hd_rev)

lemma collapse_id:
  "\<forall>c\<in>set s. isSlugChar c \<Longrightarrow> successively noDouble s \<Longrightarrow> collapseSeparators s = s"
proof (induction s rule: collapseSeparators.induct)
  case 1
  show ?case by simp
next
  case (2 c cs)
  have sc: "\<forall>c\<in>set cs. isSlugChar c" and nd: "successively noDouble cs"
    using 2(3,4) by (auto simp: successively_Cons)
  show ?case
  proof (cases "isSeparator c")
    case True
    then have c: "c = hyphen" using 2 slugChar_sep by simp
    have "cs = [] \<or> \<not> isSeparator (hd cs)"
    proof (cases cs)
      case Nil then show ?thesis by simp
    next
      case (Cons d ds)
      then have "d \<noteq> hyphen" using 2(4) c by (simp add: successively_Cons)
      moreover have "isSlugChar d" using sc Cons by simp
      ultimately show ?thesis using Cons slugChar_sep by simp
    qed
    then have dw: "dropWhile isSeparator cs = cs" by (rule dropWhile_none)
    then show ?thesis using 2 True c sc nd by simp
  next
    case False
    then show ?thesis using 2 sc nd by simp
  qed
qed

lemma slug_fixed:
  assumes sc: "\<forall>c\<in>set t. isSlugChar c" and nd: "successively noDouble t"
    and ends: "t = [] \<or> (hd t \<noteq> hyphen \<and> last t \<noteq> hyphen)"
  shows "stripHyphens (collapseSeparators (removeSpecial (trim t))) = t"
proof -
  have ns: "\<forall>c\<in>set t. \<not> isWhiteSpace c" using sc slugChar_not_space by blast
  have "trim t = t"
    unfolding trim_def
  proof (rule strip_id)
    show "t = [] \<or> \<not> isWhiteSpace (hd t) \<and> \<not> isWhiteSpace (last t)"
      using ns by (cases "t = []") simp_all
  qed
  moreover have "removeSpecial t = t"
    unfolding removeSpecial_def using sc slugChar_kept by (simp add: filter_id_conv)
  moreover have "collapseSeparators t = t" using sc nd by (rule collapse_id)
  moreover have "stripHyphens t = t" unfolding stripHyphens_def using ends by (intro strip_id) simp
  ultimately show ?thesis by simp
qed

lemma slugify_shape:
  assumes H1: "\<forall>c\<in>set (lc s). \<not> isUpperAscii c"
  shows "\<forall>c\<in>set (slugify lc s). isSlugChar c"
proof
  fix c assume "c \<in> set (slugify lc s)"
  then have c: "c \<in> set (collapseSeparators (removeSpecial (trim (lc s))))"
    using set_stripHyphens by (auto simp: slugify_def)
  show "isSlugChar c"
  proof (cases "c = hyphen")
    case True then show ?thesis by (simp add: isSlugChar_def)
  next
    case False
    with c have m: "c \<in> set (removeSpecial (trim (lc s)))" and n: "\<not> isSeparator c"
      using set_collapse by blast+
    from m have k: "isWordChar c \<or> isWhiteSpace c \<or> c = hyphen" and "c \<in> set (trim (lc s))"
      by (simp_all add: removeSpecial_def)
    then have "c \<in> set (lc s)" using set_trim by blast
    then have "\<not> isUpperAscii c" using H1 by blast
    with k n show ?thesis using kept_nonsep_lower by (simp add: isSlugChar_def)
  qed
qed

text \<open>
  Claim C2. \<open>slugify\<close> is idempotent: for every string \<open>s\<close>,
  \<open>slugify (slugify s) = slugify s\<close>. The lower-casing of the engine enters through two
  facts that hold of \<^verbatim>\<open>String.prototype.toLowerCase\<close>: its result contains no upper-case
  ASCII letter, and it leaves a string of lower-case ASCII letters, digits and hyphens as
  it is.
\<close>

theorem slugify_idempotent:
  assumes H1: "\<forall>s. \<forall>c\<in>set (lc s). \<not> isUpperAscii c"
    and H2: "\<forall>s. (\<forall>c\<in>set s. isSlugChar c) \<longrightarrow> lc s = s"
  shows "slugify lc (slugify lc s) = slugify lc s"
proof -
  let ?t = "slugify lc s"
  have sc: "\<forall>c\<in>set ?t. isSlugChar c" by (rule slugify_shape) (use H1 in blast)
  have nd: "successively noDouble ?t"
    unfolding slugify_def by (intro stripHyphens_noDouble collapse_noDouble)
  have ends: "?t = [] \<or> (hd ?t \<noteq> hyphen \<and> last ?t \<noteq> hyphen)"
    unfolding slugify_def by (rule stripHyphens_ends)
  have "lc ?t = ?t" using H2 sc by blast
  then have "slugify lc ?t = stripHyphens (collapseSeparators (removeSpecial (trim ?t)))"
    by (simp add: slugify_def)
  also have "\<dots> = ?t" using sc nd ends by (rule slug_fixed)
  finally show ?thesis .
qed


lemma lower_not_upper: "isUpperAscii c \<Longrightarrow> \<not> isUpperAscii (c + 0x20)"
  by (auto simp: isUpperAscii_def unat_word_ariths)

lemma toLowerCase_ascii_no_upper: "\<forall>c\<in>set (toLowerCase_ascii s). \<not> isUpperAscii c"
  using lower_not_upper by (auto simp: toLowerCase_ascii_def)

lemma slugChar_not_upper: "isSlugChar c \<Longrightarrow> \<not> isUpperAscii c"
  by (auto simp: char_defs)

lemma toLowerCase_ascii_slug: "(\<forall>c\<in>set s. isSlugChar c) \<longrightarrow> toLowerCase_ascii s = s"
  by (auto simp: toLowerCase_ascii_def slugChar_not_upper map_idI)

lemmas slug_eval_defs = slugify_def toLowerCase_ascii_def ascii_def trim_def removeSpecial_def stripHyphens_def
     isWhiteSpace_def isWordChar_def isSeparator_def isUpperAscii_def hyphen_def underscore_def

lemma slugify_example: "slugify toLowerCase_ascii (ascii ''  Hello, World_-- 2024!  '') = ascii ''hello-world-2024''"
  by (simp add: slug_eval_defs)

theorem slugify_idempotent_witness:
  "slugify toLowerCase_ascii (ascii ''  Hello, World_-- 2024!  '') = ascii ''hello-world-2024'' \<and>
   slugify toLowerCase_ascii (ascii ''hello-world-2024'') = ascii ''hello-world-2024''"
  using slugify_idempotent [of toLowerCase_ascii "ascii ''  Hello, World_-- 2024!  ''"]
    toLowerCase_ascii_no_upper toLowerCase_ascii_slug slugify_example
  by simp


subsection \<open>debounce\<close>
















subsection \<open>timeAgo\<close>





text \<open>An invalid date makes every comparison false.\<close>

lemma timeAgo_invalid: "timeAgo now None = ascii ''Just now''"
  by (simp add: timeAgo_def intervals_def)

subsection \<open>isNotEmpty\<close>

text \<open>
  Claim C7. \<open>isNotEmpty\<close> is documented to return a boolean, true exactly for a string
  with something left after trimming. On the empty string the code returns the empty
  string itself, which is no boolean: \<^verbatim>\<open>&&\<close> hands back its falsy left operand.
\<close>

theorem isNotEmpty_empty_string:
  "isNotEmpty (Str []) = Inr (Str []) \<and> (\<forall>b. isNotEmpty (Str []) \<noteq> Inr (Bool b))"
  by (simp add: isNotEmpty_def)

text \<open>On a non-empty string the result is the boolean the documentation describes.\<close>

lemma isNotEmpty_nonempty_string:
  "s \<noteq> [] \<Longrightarrow> isNotEmpty (Str s) = Inr (Bool (trim s \<noteq> []))"
  by (simp add: isNotEmpty_def)

lemma isNotEmpty_falsy: "\<not> truthy v \<Longrightarrow> isNotEmpty v = Inr v"
  by (simp add: isNotEmpty_def)

lemma isNotEmpty_number: "i \<noteq> 0 \<Longrightarrow> isNotEmpty (Num (Fin i)) = Inl TypeError"
  by (simp add: isNotEmpty_def)


subsection \<open>filterBySearch\<close>

text \<open>\<open>includes_js\<close> is the substring test.\<close>

lemma startsWith_iff: "startsWith s t \<longleftrightarrow> (\<exists>r. s = t @ r)"
  by (induction s t rule: startsWith.induct) auto

lemma includes_js_iff: "includes_js s t \<longleftrightarrow> (\<exists>p r. s = p @ t @ r)"
proof (induction s)
  case Nil
  then show ?case by (auto simp: startsWith_iff)
next
  case (Cons x s)
  show ?case
  proof
    assume "includes_js (x # s) t"
    then consider "startsWith (x # s) t" | "includes_js s t" by auto
    then show "\<exists>p r. x # s = p @ t @ r"
    proof cases
      case 1
      then obtain r where "x # s = t @ r" using startsWith_iff by blast
      then have "x # s = [] @ t @ r" by simp
      then show ?thesis by blast
    next
      case 2
      then obtain p r where "s = p @ t @ r" using Cons.IH by blast
      then have "x # s = (x # p) @ t @ r" by simp
      then show ?thesis by blast
    qed
  next
    assume "\<exists>p r. x # s = p @ t @ r"
    then obtain p r where e: "x # s = p @ t @ r" by blast
    show "includes_js (x # s) t"
    proof (cases p)
      case Nil
      then have "startsWith (x # s) t" using e startsWith_iff by fastforce
      then show ?thesis by simp
    next
      case (Cons y p')
      then have "s = p' @ t @ r" using e by simp
      then have "includes_js s t" using Cons.IH by blast
      then show ?thesis by simp
    qed
  qed
qed

lemma toString_truthy: "truthy v \<Longrightarrow> toString v = Inr (string_form v)"
  by (cases v) auto

lemma matchesKey_eq:
  "matchesKey lc term item key =
     Inr (truthy (get_field item key) \<and> includes_js (lc (string_form (get_field item key))) term)"
  by (simp add: matchesKey_def Let_def toString_truthy)

lemma array_some_total:
  "(\<And>x. f x = Inr (p x)) \<Longrightarrow> array_some f xs = Inr (list_ex p xs)"
  by (induction xs) simp_all

lemma array_filter_total:
  "(\<And>x. f x = Inr (p x)) \<Longrightarrow> array_filter f xs = Inr (filter p xs)"
  by (induction xs) simp_all

lemma filterBySearch_eq:
  "searchTerm \<noteq> [] \<Longrightarrow>
   filterBySearch lc array searchTerm keys = Inr (filter (retained_truthy lc searchTerm keys) array)"
  unfolding filterBySearch_def Let_def retained_truthy_def
  by (simp add: array_filter_total array_some_total matchesKey_eq)

text \<open>
  Claim C3, amended. For every array of records, every non-empty search term and every
  list of keys, \<open>filterBySearch\<close> retains, in their order, exactly the items for which
  some key has a truthy field value (not \<^verbatim>\<open>undefined\<close>, \<^verbatim>\<open>null\<close>, \<^verbatim>\<open>false\<close>, 0,
  \<^verbatim>\<open>NaN\<close> or the empty string) whose lower-cased string form contains the lower-cased
  term; it does not throw.
\<close>

theorem filterBySearch_retains_truthy_matches:
  assumes "searchTerm \<noteq> []"
  shows "filterBySearch lc array searchTerm keys =
           Inr (filter (\<lambda>item. \<exists>key \<in> set keys.
                  truthy (get_field item key) \<and>
                  includes_js (lc (string_form (get_field item key))) (lc searchTerm)) array)"
  using assms by (simp add: filterBySearch_eq retained_truthy_def [abs_def] list_ex_iff)

lemmas field_eval_defs = toLowerCase_ascii_def ascii_def isUpperAscii_def get_field_def

text \<open>
  Claim C3 as it is stated lets every value other than \<^verbatim>\<open>null\<close> and \<^verbatim>\<open>undefined\<close>
  match through its string form. The record \<^verbatim>\<open>{n: 0}\<close> and the term "0" show the
  difference: the string form "0" contains the term, yet the item is dropped.
\<close>

theorem filterBySearch_zero_counterexample:
  "filter (retained_as_specified toLowerCase_ascii (ascii ''0'') [ascii ''n''])
     [[(ascii ''n'', Num (Fin 0))]] = [[(ascii ''n'', Num (Fin 0))]] \<and>
   filterBySearch toLowerCase_ascii [[(ascii ''n'', Num (Fin 0))]] (ascii ''0'') [ascii ''n''] = Inr [] \<and>
   filterBySearch toLowerCase_ascii [[(ascii ''n'', Num (Fin 0))]] (ascii ''0'') [ascii ''n''] \<noteq>
     Inr (filter (retained_as_specified toLowerCase_ascii (ascii ''0'') [ascii ''n''])
            [[(ascii ''n'', Num (Fin 0))]])"
  by (simp add: retained_as_specified_def isNullish_def filterBySearch_def matchesKey_def
      field_eval_defs digits.simps)

theorem filterBySearch_retains_truthy_matches_witness:
  "ascii ''ban'' \<noteq> [] \<and>
   filterBySearch toLowerCase_ascii
     [[(ascii ''name'', Str (ascii ''Hero Banner'')), (ascii ''views'', Num (Fin 0))],
      [(ascii ''name'', Str (ascii ''Footer'')), (ascii ''views'', Num (Fin 12))]]
     (ascii ''BAN'') [ascii ''name'', ascii ''views'']
   = Inr [[(ascii ''name'', Str (ascii ''Hero Banner'')), (ascii ''views'', Num (Fin 0))]]"
  using filterBySearch_retains_truthy_matches [of "ascii ''BAN''" toLowerCase_ascii
     "[[(ascii ''name'', Str (ascii ''Hero Banner'')), (ascii ''views'', Num (Fin 0))],
      [(ascii ''name'', Str (ascii ''Footer'')), (ascii ''views'', Num (Fin 12))]]"
     "[ascii ''name'', ascii ''views'']"]
  by (simp add: field_eval_defs digits.simps)

lemma falsy_present_not_truthy: "falsy_present v \<Longrightarrow> \<not> truthy v"
  by (auto simp: falsy_present_def)

text \<open>
  Claim C9. For every array, non-empty term and keys: a key whose field value is falsy
  although present (0, the empty string, \<^verbatim>\<open>false\<close> or \<^verbatim>\<open>NaN\<close>) contributes no match,
  whatever its string form contains; an item is retained only through a key whose value
  is not of this kind.
\<close>

theorem falsy_field_contributes_no_match:
  assumes "searchTerm \<noteq> []"
  shows "(falsy_present (get_field item key) \<longrightarrow>
            matchesKey lc (lc searchTerm) item key = Inr False) \<and>
         (\<exists>r. filterBySearch lc array searchTerm keys = Inr r \<and>
              (item \<in> set r \<longleftrightarrow>
                 item \<in> set array \<and>
                 (\<exists>key \<in> set keys. \<not> falsy_present (get_field item key) \<and>
                    matchesKey lc (lc searchTerm) item key = Inr True)))"
proof -
  have a: "falsy_present (get_field item key) \<longrightarrow> matchesKey lc (lc searchTerm) item key = Inr False"
    by (simp add: matchesKey_eq falsy_present_not_truthy)
  have "retained_truthy lc searchTerm keys item \<longleftrightarrow>
          (\<exists>key \<in> set keys. \<not> falsy_present (get_field item key) \<and>
             matchesKey lc (lc searchTerm) item key = Inr True)"
    using falsy_present_not_truthy by (auto simp: retained_truthy_def list_ex_iff matchesKey_eq)
  then have "item \<in> set (filter (retained_truthy lc searchTerm keys) array) \<longleftrightarrow>
          item \<in> set array \<and>
          (\<exists>key \<in> set keys. \<not> falsy_present (get_field item key) \<and>
             matchesKey lc (lc searchTerm) item key = Inr True)"
    by simp
  then show ?thesis using a assms by (simp add: filterBySearch_eq)
qed

theorem falsy_field_contributes_no_match_witness:
  "ascii ''0'' \<noteq> [] \<and>
   falsy_present (get_field [(ascii ''count'', Num (Fin 0))] (ascii ''count'')) \<and>
   includes_js (toLowerCase_ascii (string_form (Num (Fin 0)))) (toLowerCase_ascii (ascii ''0'')) \<and>
   matchesKey toLowerCase_ascii (toLowerCase_ascii (ascii ''0''))
     [(ascii ''count'', Num (Fin 0))] (ascii ''count'') = Inr False \<and>
   filterBySearch toLowerCase_ascii [[(ascii ''count'', Num (Fin 0))]] (ascii ''0'') [ascii ''count'']
     = Inr []"
proof -
  have e: "filterBySearch toLowerCase_ascii [[(ascii ''count'', Num (Fin 0))]] (ascii ''0'')
      [ascii ''count''] = Inr []"
    by (simp add: filterBySearch_def matchesKey_def field_eval_defs)
  show ?thesis
    using falsy_field_contributes_no_match [of "ascii ''0''" "[(ascii ''count'', Num (Fin 0))]"
      "ascii ''count''" toLowerCase_ascii "[[(ascii ''count'', Num (Fin 0))]]" "[ascii ''count'']"] e
    by (simp add: falsy_present_def field_eval_defs digits.simps)
qed

subsection \<open>sortByKey\<close>

lemma mset_insert_sorted: "mset (insert_sorted f x ys) = add_mset x (mset ys)"
  by (induction ys) auto

lemma mset_foldl_insert:
  "mset (foldl (\<lambda>acc x. insert_sorted f x acc) acc xs) = mset acc + mset xs"
  by (induction xs arbitrary: acc) (auto simp: mset_insert_sorted)

text \<open>
  Claim C10. For every input array, key and order, the output of \<open>sortByKey\<close> is a
  permutation of the input: the same elements with the same multiplicities, none added,
  dropped or modified.
\<close>

theorem sortByKey_permutation: "mset (sortByKey s2n array key order) = mset array"
  by (simp add: sortByKey_def array_sort_def mset_foldl_insert)

lemma set_insert_sorted: "set (insert_sorted f x ys) = insert x (set ys)"
  by (induction ys) auto

lemma weak_order_less_not_less:
  assumes "weak_order_on S lt" "x \<in> S" "y \<in> S" "z \<in> S" "lt x y" "\<not> lt z y"
  shows "lt x z"
  using assms unfolding weak_order_on_def by metis

lemma sorted_insert_sorted:
  assumes wo: "weak_order_on S (precedes f)" and x: "x \<in> S"
  shows "set ys \<subseteq> S \<Longrightarrow> sorted_wrt (\<lambda>u v. \<not> precedes f v u) ys \<Longrightarrow>
         sorted_wrt (\<lambda>u v. \<not> precedes f v u) (insert_sorted f x ys)"
proof (induction ys)
  case Nil
  then show ?case by simp
next
  case (Cons y ys)
  show ?case
  proof (cases "precedes f x y")
    case True
    have "\<not> precedes f z x" if "z \<in> set (y # ys)" for z
    proof -
      have "z \<in> S" using that Cons.prems(1) by auto
      have "\<not> precedes f z y" 
      proof (cases "z = y")
        case True
        then show ?thesis using wo \<open>z \<in> S\<close> unfolding weak_order_on_def by blast
      next
        case False
        then show ?thesis using that Cons.prems(2) by auto
      qed
      then have "precedes f x z"
        using weak_order_less_not_less[OF wo x _ \<open>z \<in> S\<close> True] Cons.prems(1) by simp
      then show ?thesis using wo x \<open>z \<in> S\<close> unfolding weak_order_on_def by blast
    qed
    then show ?thesis using True Cons.prems(2) by (auto simp: precedes_def)
  next
    case False
    then have "insert_sorted f x (y # ys) = y # insert_sorted f x ys"
      by (simp add: precedes_def)
    moreover have "sorted_wrt (\<lambda>u v. \<not> precedes f v u) (insert_sorted f x ys)"
      using Cons by simp
    ultimately show ?thesis using False Cons.prems(2) by (auto simp: set_insert_sorted)
  qed
qed

lemma filter_insert_sorted_other:
  "\<not> P x \<Longrightarrow> filter P (insert_sorted f x ys) = filter P ys"
  by (induction ys) auto

lemma filter_insert_sorted_last:
  assumes wo: "weak_order_on S (precedes f)" and x: "x \<in> S" and px: "P x"
    and eqv: "\<forall>z \<in> S. P z \<longrightarrow> \<not> precedes f x z"
  shows "set ys \<subseteq> S \<Longrightarrow> sorted_wrt (\<lambda>u v. \<not> precedes f v u) ys \<Longrightarrow>
         filter P (insert_sorted f x ys) = filter P ys @ [x]"
proof (induction ys)
  case Nil
  then show ?case using px by simp
next
  case (Cons y ys)
  show ?case
  proof (cases "precedes f x y")
    case True
    have "\<not> P z" if "z \<in> set (y # ys)" for z
    proof
      assume "P z"
      have "z \<in> S" using that Cons.prems(1) by auto
      have "\<not> precedes f z y"
      proof (cases "z = y")
        case True
        then show ?thesis using wo \<open>z \<in> S\<close> unfolding weak_order_on_def by blast
      next
        case False
        then show ?thesis using that Cons.prems(2) by auto
      qed
      then have "precedes f x z"
        using weak_order_less_not_less[OF wo x _ \<open>z \<in> S\<close> True] Cons.prems(1) by simp
      then show False using eqv \<open>z \<in> S\<close> \<open>P z\<close> by simp
    qed
    then have "filter P (y # ys) = []" by (simp only: filter_empty_conv) blast
    moreover have "insert_sorted f x (y # ys) = x # y # ys" using True by (simp add: precedes_def)
    ultimately show ?thesis using px by simp
  next
    case False
    then have "insert_sorted f x (y # ys) = y # insert_sorted f x ys"
      by (simp add: precedes_def)
    moreover have "filter P (insert_sorted f x ys) = filter P ys @ [x]"
      using Cons by simp
    ultimately show ?thesis by simp
  qed
qed

lemma array_sort_stable_aux:
  assumes wo: "weak_order_on S (precedes f)"
    and eqv: "\<And>x z. x \<in> S \<Longrightarrow> z \<in> S \<Longrightarrow> P x \<Longrightarrow> P z \<Longrightarrow> \<not> precedes f x z"
  shows "set xs \<subseteq> S \<Longrightarrow> set acc \<subseteq> S \<Longrightarrow> sorted_wrt (\<lambda>u v. \<not> precedes f v u) acc \<Longrightarrow>
         filter P (foldl (\<lambda>acc x. insert_sorted f x acc) acc xs) = filter P acc @ filter P xs"
proof (induction xs arbitrary: acc)
  case Nil
  then show ?case by simp
next
  case (Cons x xs)
  have x: "x \<in> S" using Cons.prems(1) by simp
  have s: "sorted_wrt (\<lambda>u v. \<not> precedes f v u) (insert_sorted f x acc)"
    using sorted_insert_sorted[OF wo x Cons.prems(2,3)] .
  have sub: "set (insert_sorted f x acc) \<subseteq> S" using x Cons.prems(2) by (simp add: set_insert_sorted)
  have "filter P (insert_sorted f x acc) = filter P acc @ filter P [x]"
  proof (cases "P x")
    case True
    have e: "\<forall>z \<in> S. P z \<longrightarrow> \<not> precedes f x z"
      using eqv[OF x] True by blast
    show ?thesis
      using filter_insert_sorted_last[where P = P, OF wo x True e Cons.prems(2,3)] True by simp
  next
    case False
    then show ?thesis by (simp add: filter_insert_sorted_other)
  qed
  moreover have "filter P (foldl (\<lambda>acc x. insert_sorted f x acc) (insert_sorted f x acc) xs)
      = filter P (insert_sorted f x acc) @ filter P xs"
    using Cons.IH[OF _ sub s] Cons.prems(1) by simp
  ultimately show ?case by simp
qed

lemma array_sort_stable:
  assumes wo: "weak_order_on (set xs) (precedes f)"
    and eqv: "\<And>x z. x \<in> set xs \<Longrightarrow> z \<in> set xs \<Longrightarrow> P x \<Longrightarrow> P z \<Longrightarrow> \<not> precedes f x z"
  shows "filter P (array_sort f xs) = filter P xs"
proof -
  have "filter P (foldl (\<lambda>acc x. insert_sorted f x acc) [] xs) = filter P [] @ filter P xs"
    by (rule array_sort_stable_aux[OF wo eqv]) simp_all
  then show ?thesis by (simp add: array_sort_def)
qed


lemma str_lt_asym: "str_lt x y \<Longrightarrow> \<not> str_lt y x"
  by (induction x y rule: str_lt.induct) (auto split: if_splits)

lemma str_lt_trans: "str_lt x y \<Longrightarrow> str_lt y z \<Longrightarrow> str_lt x z"
proof (induction x y arbitrary: z rule: str_lt.induct)
  case (4 x xs y ys)
  then show ?case by (cases z) (auto split: if_splits)
qed (auto elim: str_lt.elims)

lemma str_lt_total: "\<not> str_lt x y \<Longrightarrow> \<not> str_lt y x \<Longrightarrow> x = y"
  by (induction x y rule: str_lt.induct) (auto split: if_splits)

lemma num_lt_asym: "num_lt m n \<Longrightarrow> \<not> num_lt n m"
  by (cases m; cases n) auto

lemma js_lt_asym: "js_lt s2n a b \<Longrightarrow> \<not> js_lt s2n b a"
  by (cases a; cases b) (auto dest: str_lt_asym num_lt_asym)

lemma precedes_compareFn:
  "precedes (compareFn s2n key order) a b =
     (if order = ascii ''asc'' then js_lt s2n (get_field a key) (get_field b key)
      else js_lt s2n (get_field b key) (get_field a key))"
  using js_lt_asym[of s2n "get_field a key" "get_field b key"]
  by (auto simp: precedes_def compareFn_def Let_def)

lemma consistent_keys_weak_order:
  assumes "consistent_keys s2n key array"
  shows "weak_order_on (set array) (precedes (compareFn s2n key order))"
proof -
  let ?lt = "\<lambda>a b. js_lt s2n (get_field a key) (get_field b key)"
  have tr: "\<And>a b c. a \<in> set array \<Longrightarrow> b \<in> set array \<Longrightarrow> c \<in> set array \<Longrightarrow>
              ?lt a b \<Longrightarrow> ?lt b c \<Longrightarrow> ?lt a c"
    using assms unfolding consistent_keys_def by blast
  have eq: "\<And>a b c. a \<in> set array \<Longrightarrow> b \<in> set array \<Longrightarrow> c \<in> set array \<Longrightarrow>
              \<not> ?lt a b \<Longrightarrow> \<not> ?lt b a \<Longrightarrow> \<not> ?lt b c \<Longrightarrow> \<not> ?lt c b \<Longrightarrow> \<not> ?lt a c \<and> \<not> ?lt c a"
    using assms unfolding consistent_keys_def equal_keys_def by blast
  show ?thesis
  proof (cases "order = ascii ''asc''")
    case True
    then have p: "precedes (compareFn s2n key order) = ?lt"
      by (intro ext) (simp add: precedes_compareFn)
    show ?thesis unfolding p weak_order_on_def
      using js_lt_asym tr eq by (intro conjI ballI impI) (blast+)
  next
    case False
    then have p: "precedes (compareFn s2n key order) = (\<lambda>a b. ?lt b a)"
      by (intro ext) (simp add: precedes_compareFn)
    show ?thesis unfolding p weak_order_on_def
      using js_lt_asym tr eq by (intro conjI ballI impI) (blast+)
  qed
qed

text \<open>
  Claim C4, amended. For every input array on whose values at the key the comparison is
  consistent, and for every order, any two items whose values at the key are equal
  (neither less than nor greater than the other) appear in the output of \<open>sortByKey\<close> in
  the same relative order as in the input.
\<close>

theorem sortByKey_stable_on_consistent_keys:
  assumes "consistent_keys s2n key array" and "equal_keys s2n key a b"
  shows "same_relative_order a b array (sortByKey s2n array key order)"
proof -
  have wo: "weak_order_on (set array) (precedes (compareFn s2n key order))"
    using assms(1) by (rule consistent_keys_weak_order)
  have irr: "\<not> js_lt s2n v v" for v using js_lt_asym by blast
  have "\<not> precedes (compareFn s2n key order) x z"
    if "x = a \<or> x = b" "z = a \<or> z = b" for x z
    using that assms(2) irr by (auto simp: precedes_compareFn equal_keys_def)
  then have "filter (\<lambda>x. x = a \<or> x = b) (array_sort (compareFn s2n key order) array)
           = filter (\<lambda>x. x = a \<or> x = b) array"
    by (intro array_sort_stable[OF wo]) blast
  then show ?thesis by (simp add: same_relative_order_def sortByKey_def)
qed

lemma foldl_insert_sorted:
  assumes wo: "weak_order_on S (precedes f)"
  shows "set xs \<subseteq> S \<Longrightarrow> set acc \<subseteq> S \<Longrightarrow> sorted_wrt (\<lambda>u v. \<not> precedes f v u) acc \<Longrightarrow>
         sorted_wrt (\<lambda>u v. \<not> precedes f v u) (foldl (\<lambda>acc x. insert_sorted f x acc) acc xs)"
proof (induction xs arbitrary: acc)
  case Nil
  then show ?case by simp
next
  case (Cons x xs)
  have x: "x \<in> S" using Cons.prems(1) by simp
  have "sorted_wrt (\<lambda>u v. \<not> precedes f v u) (insert_sorted f x acc)"
    using sorted_insert_sorted[OF wo x Cons.prems(2,3)] .
  moreover have "set (insert_sorted f x acc) \<subseteq> S"
    using x Cons.prems(2) by (simp add: set_insert_sorted)
  ultimately show ?case using Cons.IH Cons.prems(1) by simp
qed

text \<open>On consistent keys the output is also in order: no item precedes one that the comparator puts before it.\<close>

lemma sortByKey_sorted:
  assumes "consistent_keys s2n key array"
  shows "sorted_wrt (\<lambda>a b. \<not> precedes (compareFn s2n key order) b a) (sortByKey s2n array key order)"
proof -
  have "weak_order_on (set array) (precedes (compareFn s2n key order))"
    using assms by (rule consistent_keys_weak_order)
  then show ?thesis
    unfolding sortByKey_def array_sort_def by (rule foldl_insert_sorted) simp_all
qed

text \<open>Arrays of numbers other than \<^verbatim>\<open>NaN\<close> and arrays of strings are consistent.\<close>

lemma consistent_keys_numbers:
  assumes "\<forall>a \<in> set array. \<exists>i. get_field a key = Num (Fin i)"
  shows "consistent_keys s2n key array"
  unfolding consistent_keys_def equal_keys_def
proof (intro ballI)
  fix a b c assume "a \<in> set array" "b \<in> set array" "c \<in> set array"
  then obtain i j k where "get_field a key = Num (Fin i)" "get_field b key = Num (Fin j)"
    "get_field c key = Num (Fin k)" using assms by blast
  then show "(js_lt s2n (get_field a key) (get_field b key) \<and>
         js_lt s2n (get_field b key) (get_field c key)
           \<longrightarrow> js_lt s2n (get_field a key) (get_field c key)) \<and>
        ((\<not> js_lt s2n (get_field a key) (get_field b key) \<and>
      \<not> js_lt s2n (get_field b key) (get_field a key)) \<and> (\<not> js_lt s2n (get_field b key) (get_field c key) \<and>
      \<not> js_lt s2n (get_field c key) (get_field b key)) \<longrightarrow> (\<not> js_lt s2n (get_field a key) (get_field c key) \<and>
      \<not> js_lt s2n (get_field c key) (get_field a key)))" by auto
qed

lemma consistent_keys_strings:
  assumes "\<forall>a \<in> set array. \<exists>s. get_field a key = Str s"
  shows "consistent_keys s2n key array"
  unfolding consistent_keys_def equal_keys_def
proof (intro ballI)
  fix a b c assume "a \<in> set array" "b \<in> set array" "c \<in> set array"
  then obtain i j k where "get_field a key = Str i" "get_field b key = Str j"
    "get_field c key = Str k" using assms by blast
  then show "(js_lt s2n (get_field a key) (get_field b key) \<and>
         js_lt s2n (get_field b key) (get_field c key)
           \<longrightarrow> js_lt s2n (get_field a key) (get_field c key)) \<and>
        ((\<not> js_lt s2n (get_field a key) (get_field b key) \<and>
      \<not> js_lt s2n (get_field b key) (get_field a key)) \<and> (\<not> js_lt s2n (get_field b key) (get_field c key) \<and>
      \<not> js_lt s2n (get_field c key) (get_field b key)) \<longrightarrow> (\<not> js_lt s2n (get_field a key) (get_field c key) \<and>
      \<not> js_lt s2n (get_field c key) (get_field a key)))"
    by simp (metis str_lt_trans str_lt_total)
qed

lemmas sort_eval_defs = sortByKey_def array_sort_def compareFn_def get_field_def ascii_def
  same_relative_order_def equal_keys_def

text \<open>
  Claim C4 as it is stated covers every input array. The comparator returns 0 for a
  value that is \<^verbatim>\<open>NaN\<close> against any other, so for the keys 5, 6, 7, \<^verbatim>\<open>NaN\<close>, 8, 1 the
  item with \<^verbatim>\<open>NaN\<close> and the item with 1 are equal for it; the item with 1 is placed in
  front of 5 and so ends in front of the item with \<^verbatim>\<open>NaN\<close>, which preceded it in the
  input.
\<close>

theorem sortByKey_NaN_counterexample:
  "equal_keys s2n_none (ascii ''k'') [(ascii ''k'', Num NaN)] [(ascii ''k'', Num (Fin 1))] \<and>
   sortByKey s2n_none
     [[(ascii ''k'', Num (Fin 5))], [(ascii ''k'', Num (Fin 6))], [(ascii ''k'', Num (Fin 7))],
      [(ascii ''k'', Num NaN)], [(ascii ''k'', Num (Fin 8))], [(ascii ''k'', Num (Fin 1))]]
     (ascii ''k'') (ascii ''asc'') =
     [[(ascii ''k'', Num (Fin 1))], [(ascii ''k'', Num (Fin 5))], [(ascii ''k'', Num (Fin 6))],
      [(ascii ''k'', Num (Fin 7))], [(ascii ''k'', Num NaN)], [(ascii ''k'', Num (Fin 8))]] \<and>
   \<not> same_relative_order [(ascii ''k'', Num NaN)] [(ascii ''k'', Num (Fin 1))]
     [[(ascii ''k'', Num (Fin 5))], [(ascii ''k'', Num (Fin 6))], [(ascii ''k'', Num (Fin 7))],
      [(ascii ''k'', Num NaN)], [(ascii ''k'', Num (Fin 8))], [(ascii ''k'', Num (Fin 1))]]
     (sortByKey s2n_none
       [[(ascii ''k'', Num (Fin 5))], [(ascii ''k'', Num (Fin 6))], [(ascii ''k'', Num (Fin 7))],
        [(ascii ''k'', Num NaN)], [(ascii ''k'', Num (Fin 8))], [(ascii ''k'', Num (Fin 1))]]
       (ascii ''k'') (ascii ''asc''))"
  by (simp add: sort_eval_defs)

theorem sortByKey_stable_on_consistent_keys_witness:
  "consistent_keys s2n_none (ascii ''k'')
     [[(ascii ''k'', Num (Fin 2)), (ascii ''id'', Str (ascii ''a''))],
      [(ascii ''k'', Num (Fin 1)), (ascii ''id'', Str (ascii ''b''))],
      [(ascii ''k'', Num (Fin 2)), (ascii ''id'', Str (ascii ''c''))]] \<and>
   equal_keys s2n_none (ascii ''k'')
     [(ascii ''k'', Num (Fin 2)), (ascii ''id'', Str (ascii ''a''))]
     [(ascii ''k'', Num (Fin 2)), (ascii ''id'', Str (ascii ''c''))] \<and>
   same_relative_order
     [(ascii ''k'', Num (Fin 2)), (ascii ''id'', Str (ascii ''a''))]
     [(ascii ''k'', Num (Fin 2)), (ascii ''id'', Str (ascii ''c''))]
     [[(ascii ''k'', Num (Fin 2)), (ascii ''id'', Str (ascii ''a''))],
      [(ascii ''k'', Num (Fin 1)), (ascii ''id'', Str (ascii ''b''))],
      [(ascii ''k'', Num (Fin 2)), (ascii ''id'', Str (ascii ''c''))]]
     (sortByKey s2n_none
       [[(ascii ''k'', Num (Fin 2)), (ascii ''id'', Str (ascii ''a''))],
        [(ascii ''k'', Num (Fin 1)), (ascii ''id'', Str (ascii ''b''))],
        [(ascii ''k'', Num (Fin 2)), (ascii ''id'', Str (ascii ''c''))]]
       (ascii ''k'') (ascii ''asc'')) \<and>
   sortByKey s2n_none
       [[(ascii ''k'', Num (Fin 2)), (ascii ''id'', Str (ascii ''a''))],
        [(ascii ''k'', Num (Fin 1)), (ascii ''id'', Str (ascii ''b''))],
        [(ascii ''k'', Num (Fin 2)), (ascii ''id'', Str (ascii ''c''))]]
       (ascii ''k'') (ascii ''asc'') =
       [[(ascii ''k'', Num (Fin 1)), (ascii ''id'', Str (ascii ''b''))],
        [(ascii ''k'', Num (Fin 2)), (ascii ''id'', Str (ascii ''a''))],
        [(ascii ''k'', Num (Fin 2)), (ascii ''id'', Str (ascii ''c''))]]"
proof -
  have c: "consistent_keys s2n_none (ascii ''k'')
     [[(ascii ''k'', Num (Fin 2)), (ascii ''id'', Str (ascii ''a''))],
      [(ascii ''k'', Num (Fin 1)), (ascii ''id'', Str (ascii ''b''))],
      [(ascii ''k'', Num (Fin 2)), (ascii ''id'', Str (ascii ''c''))]]"
    by (rule consistent_keys_numbers) (simp add: get_field_def ascii_def)
  have e: "equal_keys s2n_none (ascii ''k'')
     [(ascii ''k'', Num (Fin 2)), (ascii ''id'', Str (ascii ''a''))]
     [(ascii ''k'', Num (Fin 2)), (ascii ''id'', Str (ascii ''c''))]"
    by (simp add: equal_keys_def get_field_def ascii_def)
  have s: "sortByKey s2n_none
       [[(ascii ''k'', Num (Fin 2)), (ascii ''id'', Str (ascii ''a''))],
        [(ascii ''k'', Num (Fin 1)), (ascii ''id'', Str (ascii ''b''))],
        [(ascii ''k'', Num (Fin 2)), (ascii ''id'', Str (ascii ''c''))]]
       (ascii ''k'') (ascii ''asc'') =
       [[(ascii ''k'', Num (Fin 1)), (ascii ''id'', Str (ascii ''b''))],
        [(ascii ''k'', Num (Fin 2)), (ascii ''id'', Str (ascii ''a''))],
        [(ascii ''k'', Num (Fin 2)), (ascii ''id'', Str (ascii ''c''))]]"
    by (simp add: sort_eval_defs)
  show ?thesis
    using sortByKey_stable_on_consistent_keys [OF c e, of "ascii ''asc''"] c e s by simp
qed

theorem sortByKey_permutation_witness:
  "mset (sortByKey s2n_none
     [[(ascii ''k'', Num (Fin 5))], [(ascii ''k'', Num NaN)], [(ascii ''k'', Num (Fin 1))]]
     (ascii ''k'') (ascii ''desc'')) =
   mset [[(ascii ''k'', Num (Fin 5))], [(ascii ''k'', Num NaN)], [(ascii ''k'', Num (Fin 1))]]"
  using sortByKey_permutation [of s2n_none
     "[[(ascii ''k'', Num (Fin 5))], [(ascii ''k'', Num NaN)], [(ascii ''k'', Num (Fin 1))]]"
     "ascii ''k''" "ascii ''desc''"]
  by simp

text \<open>
  Claim C8. For every input array, key and order, \<open>sortByKey\<close> returns a new array and
  leaves its input unchanged: after the call the input array, like every array that
  existed before, holds the same elements in the same order, and the result is another
  array, which holds the sorted elements.
\<close>

theorem sortByKey_leaves_input_unchanged:
  assumes "array < length h"
  shows "\<exists>h' result.
           sortByKey_heap s2n h array key order = Some (h', result) \<and>
           result \<noteq> array \<and>
           h' ! array = h ! array \<and>
           (\<forall>r < length h. h' ! r = h ! r) \<and>
           h' ! result = sortByKey s2n (h ! array) key order"
  using assms by (simp add: sortByKey_heap_def Let_def sortByKey_def nth_append)

theorem sortByKey_leaves_input_unchanged_witness:
  "(0::nat) < length [[[(ascii ''k'', Num (Fin 2))], [(ascii ''k'', Num (Fin 1))]]] \<and>
   sortByKey_heap s2n_none [[[(ascii ''k'', Num (Fin 2))], [(ascii ''k'', Num (Fin 1))]]] 0
     (ascii ''k'') (ascii ''asc'') =
   Some ([[[(ascii ''k'', Num (Fin 2))], [(ascii ''k'', Num (Fin 1))]],
          [[(ascii ''k'', Num (Fin 1))], [(ascii ''k'', Num (Fin 2))]]], 1)"
  using sortByKey_leaves_input_unchanged [of 0
     "[[[(ascii ''k'', Num (Fin 2))], [(ascii ''k'', Num (Fin 1))]]]" s2n_none "ascii ''k''" "ascii ''asc''"]
  by (simp add: sortByKey_heap_def sort_eval_defs)

end
